theory Spec2Isabelle
  imports Main
begin

section \<open>The package module \<open>pytensor/compile/__init__.py\<close>\<close>

text \<open>
  The module body is a sequence of \<^verbatim>\<open>from M import a, b, ...\<close> statements and nothing
  else. Executing one of them imports the module \<open>M\<close> (which, for a submodule of the
  package, binds the submodule's first path component in the package's namespace), then
  looks each listed name up in \<open>M\<close> and binds it in the package's namespace, in order.
  A module that cannot be imported raises \<^verbatim>\<open>ModuleNotFoundError\<close>; a name that \<open>M\<close> does not
  define raises \<^verbatim>\<open>ImportError\<close>, and the exception leaves the module body.
\<close>

datatype import_error =
    ModuleNotFoundError string
  | ImportError string string

text \<open>What a name of the package's namespace is bound to.\<close>

datatype binding =
    Attribute string string
  | Submodule string

type_synonym namespace = "string \<rightharpoonup> binding"

text \<open>
  The modules that the statements import are not part of the package module itself: they
  are a parameter, giving for each dotted module path the names the module defines, or
  \<open>None\<close> when the module cannot be imported.
\<close>

type_synonym modules = "string \<Rightarrow> string list option"

record from_import =
  submodule :: string
  module :: string
  names :: "string list"

fun bind_names :: "string \<Rightarrow> string list \<Rightarrow> string list \<Rightarrow> namespace \<Rightarrow> import_error + namespace" where
  "bind_names m defs [] ns = Inr ns"
| "bind_names m defs (n # rest) ns =
     (if n \<in> set defs then bind_names m defs rest (ns(n \<mapsto> Attribute m n))
      else Inl (ImportError n m))"

definition exec_from_import :: "modules \<Rightarrow> from_import \<Rightarrow> namespace \<Rightarrow> import_error + namespace" where
  "exec_from_import mods st ns =
     (case mods (module st) of
        None \<Rightarrow> Inl (ModuleNotFoundError (module st))
      | Some defs \<Rightarrow>
          bind_names (module st) defs (names st) (ns(submodule st \<mapsto> Submodule (submodule st))))"

fun exec_module :: "modules \<Rightarrow> from_import list \<Rightarrow> namespace \<Rightarrow> import_error + namespace" where
  "exec_module mods [] ns = Inr ns"
| "exec_module mods (st # sts) ns =
     (case exec_from_import mods st ns of
        Inl e \<Rightarrow> Inl e
      | Inr ns' \<Rightarrow> exec_module mods sts ns')"

text \<open>The statements of \<^verbatim>\<open>pytensor/compile/__init__.py\<close>, in source order.\<close>

definition init_py :: "from_import list" where
  "init_py =
    [\<lparr>submodule = ''function'', module = ''pytensor.compile.function.pfunc'',
       names = [''pfunc'', ''rebuild_collect_shared'']\<rparr>,
     \<lparr>submodule = ''function'', module = ''pytensor.compile.function.types'',
       names = [''AliasedMemoryError'', ''Function'', ''FunctionMaker'', ''Supervisor'',
                ''UnusedInputError'', ''alias_root'', ''convert_function_input'',
                ''fgraph_updated_vars'', ''get_info_on_inputs'', ''infer_reuse_pattern'',
                ''insert_deepcopy'', ''orig_function'', ''std_fgraph'', ''view_tree_set'']\<rparr>,
     \<lparr>submodule = ''io'', module = ''pytensor.compile.io'',
       names = [''In'', ''Out'', ''SymbolicInput'', ''SymbolicOutput'']\<rparr>,
     \<lparr>submodule = ''mode'', module = ''pytensor.compile.mode'',
       names = [''FAST_COMPILE'', ''FAST_RUN'', ''JAX'', ''NUMBA'', ''OPT_FAST_COMPILE'',
                ''OPT_FAST_RUN'', ''OPT_FAST_RUN_STABLE'', ''OPT_MERGE'', ''OPT_NONE'',
                ''OPT_O2'', ''OPT_O3'', ''OPT_STABILIZE'', ''OPT_UNSAFE'', ''PYTORCH'',
                ''AddDestroyHandler'', ''AddFeatureOptimizer'', ''Mode'',
                ''PrintCurrentFunctionGraph'', ''get_default_mode'', ''get_mode'',
                ''local_useless'', ''optdb'', ''predefined_linkers'', ''predefined_modes'',
                ''predefined_optimizers'', ''register_linker'', ''register_mode'',
                ''register_optimizer'']\<rparr>,
     \<lparr>submodule = ''monitormode'', module = ''pytensor.compile.monitormode'',
       names = [''MonitorMode'']\<rparr>,
     \<lparr>submodule = ''ops'', module = ''pytensor.compile.ops'',
       names = [''DeepCopyOp'', ''FromFunctionOp'', ''ViewOp'', ''as_op'', ''deep_copy_op'',
                ''register_deep_copy_op_c_code'', ''register_view_op_c_code'', ''view_op'']\<rparr>,
     \<lparr>submodule = ''profiling'', module = ''pytensor.compile.profiling'',
       names = [''ProfileStats'']\<rparr>,
     \<lparr>submodule = ''sharedvalue'', module = ''pytensor.compile.sharedvalue'',
       names = [''SharedVariable'', ''shared'', ''shared_constructor'']\<rparr>]"

definition import_package :: "modules \<Rightarrow> import_error + namespace" where
  "import_package mods = exec_module mods init_py Map.empty"

text \<open>
  The names a run of the statements binds, in the order of binding: the submodule first,
  then the listed names.
\<close>

definition stmt_bindings :: "from_import \<Rightarrow> (string \<times> binding) list" where
  "stmt_bindings st =
     (submodule st, Submodule (submodule st)) # map (\<lambda>n. (n, Attribute (module st) n)) (names st)"

definition provides :: "modules \<Rightarrow> from_import \<Rightarrow> bool" where
  "provides mods st = (case mods (module st) of
      None \<Rightarrow> False
    | Some defs \<Rightarrow> list_all (\<lambda>n. n \<in> set defs) (names st))"

text \<open>An environment in which every imported module defines exactly the names asked of it.\<close>

definition exact_modules :: modules where
  "exact_modules = map_of (map (\<lambda>st. (module st, names st)) init_py)"

section \<open>The merge stage of the rewrite database\<close>

text \<open>
  The package module re-exports \<^verbatim>\<open>OPT_MERGE\<close> and \<^verbatim>\<open>optdb\<close> from
  \<^verbatim>\<open>pytensor.compile.mode\<close>; the code of the merge stage itself is not part of the package
  module. The definitions of this section follow the specification's description of the
  graph model and of the merge stage.
\<close>

type_synonym var = nat

text \<open>
  Modelled from the spec: the Operation node of the graph model (not in the package
  module). A node applies an operation, with its attributes, to an ordered list of input
  variables and yields an ordered list of output variables.
\<close>

record apply_node =
  node_op :: string
  node_attrs :: "string list"
  node_inputs :: "var list"
  node_outputs :: "var list"

text \<open>
  Modelled from the spec: the Graph of the graph model (not in the package module): its
  nodes, listed producer before consumer, and the declared inputs and outputs.
\<close>

record fgraph =
  fg_nodes :: "apply_node list"
  fg_inputs :: "var list"
  fg_outputs :: "var list"

text \<open>
  Modelled from the spec: structural identity of two nodes as the merge stage reads it
  (not in the package module): same operation, same inputs, same attributes.
\<close>

definition same_computation :: "apply_node \<Rightarrow> apply_node \<Rightarrow> bool" where
  "same_computation a b \<longleftrightarrow>
     node_op a = node_op b \<and> node_inputs a = node_inputs b \<and> node_attrs a = node_attrs b"

text \<open>
  Modelled from the spec: rewriting the consumers of a removed node (not in the package
  module). The outputs of the removed node are redirected, position by position, to the
  outputs of the surviving node.
\<close>

definition redirect :: "(var \<Rightarrow> var) \<Rightarrow> var list \<Rightarrow> var list \<Rightarrow> (var \<Rightarrow> var)" where
  "redirect sub vs ss = (\<lambda>v. case map_of (zip vs ss) v of Some s \<Rightarrow> s | None \<Rightarrow> sub v)"

text \<open>
  Modelled from the spec: one pass of the merge stage over the nodes (not in the package
  module). The inputs of a node are first rewritten to the surviving variables; a node that
  is structurally identical to a node kept so far is removed and its outputs are redirected
  to that node's outputs; any other node is kept.
\<close>

fun merge_nodes :: "(var \<Rightarrow> var) \<Rightarrow> apply_node list \<Rightarrow> apply_node list \<Rightarrow> apply_node list \<times> (var \<Rightarrow> var)" where
  "merge_nodes sub kept [] = (kept, sub)"
| "merge_nodes sub kept (n # ns) =
     (let n' = n\<lparr>node_inputs := map sub (node_inputs n)\<rparr> in
      case find (same_computation n') kept of
        Some k \<Rightarrow> merge_nodes (redirect sub (node_outputs n) (node_outputs k)) kept ns
      | None \<Rightarrow> merge_nodes sub (kept @ [n']) ns)"

text \<open>
  Modelled from the spec: the merge stage, \<^verbatim>\<open>OPT_MERGE\<close> (not in the package module). The
  declared outputs are consumers too and are rewritten like the inputs of a node.
\<close>

definition merge_stage :: "fgraph \<Rightarrow> fgraph" where
  "merge_stage g =
     (case merge_nodes id [] (fg_nodes g) of
        (kept, sub) \<Rightarrow> g\<lparr>fg_nodes := kept, fg_outputs := map sub (fg_outputs g)\<rparr>)"

text \<open>
  Modelled from the spec: the fixpoint of the merge stage (not in the package module): no
  node is structurally identical to another one, so the stage has nothing left to match.
\<close>

fun no_duplicates :: "apply_node list \<Rightarrow> bool" where
  "no_duplicates [] = True"
| "no_duplicates (n # ns) = (find (same_computation n) ns = None \<and> no_duplicates ns)"

text \<open>
  Modelled from the spec: the variables that the nodes of a list produce and the variables
  they consume (graph model, not in the package module).
\<close>

definition outs :: "apply_node list \<Rightarrow> var set" where
  "outs ns = (\<Union>n \<in> set ns. set (node_outputs n))"

definition ins :: "apply_node list \<Rightarrow> var set" where
  "ins ns = (\<Union>n \<in> set ns. set (node_inputs n))"

text \<open>
  Modelled from the spec: the invariants of the graph model on a list of nodes (not in the
  package module). The graph is acyclic and every variable has one producing operation: a
  node's outputs are neither its own inputs nor inputs or outputs of a node listed before
  it.
\<close>

fun producers_first :: "apply_node list \<Rightarrow> bool" where
  "producers_first [] = True"
| "producers_first (n # ns) =
     (list_all (\<lambda>v. v \<notin> set (node_inputs n)) (node_outputs n)
      \<and> list_all (\<lambda>m. list_all (\<lambda>v. v \<notin> set (node_inputs n) \<and> v \<notin> set (node_outputs n))
                     (node_outputs m)) ns
      \<and> producers_first ns)"

text \<open>
  Modelled from the spec: an operation has a fixed arity (graph model, not in the package
  module), so two nodes of the same operation and attributes have as many outputs.
\<close>

definition fixed_arity :: "apply_node list \<Rightarrow> bool" where
  "fixed_arity ns = list_all (\<lambda>a. list_all (\<lambda>b.
      node_op a \<noteq> node_op b \<or> node_attrs a \<noteq> node_attrs b
      \<or> length (node_outputs a) = length (node_outputs b)) ns) ns"

text \<open>
  The invariant of a pass of \<open>merge_nodes\<close>, with \<open>D\<close> the outputs of the nodes removed so
  far: kept, removed and coming outputs are apart; the substitution moves removed
  variables only, and each of them to an output of a kept node; no kept node reads a
  removed or a coming variable.
\<close>

definition merge_inv :: "(var \<Rightarrow> var) \<Rightarrow> apply_node list \<Rightarrow> var set \<Rightarrow> apply_node list \<Rightarrow> bool" where
  "merge_inv sub kept D ns \<longleftrightarrow>
     outs kept \<inter> D = {} \<and> outs kept \<inter> outs ns = {} \<and> D \<inter> outs ns = {}
     \<and> (\<forall>v. sub v \<noteq> v \<longrightarrow> v \<in> D)
     \<and> (\<forall>v \<in> D. sub v \<in> outs kept)
     \<and> ins kept \<inter> (D \<union> outs ns) = {}
     \<and> producers_first ns
     \<and> fixed_arity (kept @ ns)"

text \<open>
  A graph with two identical additions, whose merge makes two multiplications identical,
  and two sums that differ in an attribute only.
\<close>

definition example_graph :: fgraph where
  "example_graph = \<lparr>fg_nodes =
      [\<lparr>node_op = ''add'', node_attrs = [], node_inputs = [0, 1], node_outputs = [2]\<rparr>,
       \<lparr>node_op = ''add'', node_attrs = [], node_inputs = [0, 1], node_outputs = [3]\<rparr>,
       \<lparr>node_op = ''mul'', node_attrs = [], node_inputs = [2, 3], node_outputs = [4]\<rparr>,
       \<lparr>node_op = ''mul'', node_attrs = [], node_inputs = [2, 2], node_outputs = [5]\<rparr>,
       \<lparr>node_op = ''sum'', node_attrs = [''axis=0''], node_inputs = [4], node_outputs = [6]\<rparr>,
       \<lparr>node_op = ''sum'', node_attrs = [''axis=1''], node_inputs = [5], node_outputs = [7]\<rparr>],
     fg_inputs = [0, 1], fg_outputs = [6, 7, 5]\<rparr>"

section \<open>Importing the package\<close>

lemma bind_names_ok:
  "list_all (\<lambda>n. n \<in> set defs) xs \<Longrightarrow>
   bind_names m defs xs ns = Inr (ns ++ map_of (rev (map (\<lambda>n. (n, Attribute m n)) xs)))"
proof (induction xs arbitrary: ns)
  case Nil
  then show ?case by simp
next
  case (Cons x xs)
  then show ?case by (simp add: map_add_upd_left map_add_assoc[symmetric]) 
qed

lemma exec_from_import_ok:
  "provides mods st \<Longrightarrow>
   exec_from_import mods st ns = Inr (ns ++ map_of (rev (stmt_bindings st)))"
  by (auto simp: provides_def exec_from_import_def stmt_bindings_def bind_names_ok
      split: option.splits)

lemma exec_module_ok:
  "list_all (provides mods) sts \<Longrightarrow>
   exec_module mods sts ns = Inr (ns ++ map_of (rev (concat (map stmt_bindings sts))))"
proof (induction sts arbitrary: ns)
  case Nil
  then show ?case by simp
next
  case (Cons st sts)
  then show ?case by (simp add: exec_from_import_ok)
qed

lemma map_of_rev_functional:
  assumes "(k, v) \<in> set bs" and "distinct (map fst (remdups bs))"
  shows "map_of (rev bs) k = Some v"
proof -
  have "k \<in> fst ` set (rev bs)" using assms(1) by force
  then obtain v' where v': "map_of (rev bs) k = Some v'"
    by (metis map_of_eq_None_iff not_Some_eq)
  then have "(k, v') \<in> set (remdups bs)" by (auto dest: map_of_SomeD)
  moreover have "(k, v) \<in> set (remdups bs)" using assms(1) by simp
  ultimately have "v' = v" using assms(2) by (meson eq_key_imp_eq_value)
  with v' show ?thesis by simp
qed

lemma init_py_functional: "distinct (map fst (remdups (concat (map stmt_bindings init_py))))"
  by (simp add: init_py_def stmt_bindings_def)

lemma name_in_bindings:
  "st \<in> set sts \<Longrightarrow> n \<in> set (names st) \<Longrightarrow>
   (n, Attribute (module st) n) \<in> set (concat (map stmt_bindings sts))"
  by (auto simp: stmt_bindings_def)


text \<open>
  Claim C10. Importing the package runs \<open>init_py\<close> to its end and binds every name that
  the statements list at the top level of the package, each to the object of that name in
  the module it was imported from; in particular the names the claim spells out. The
  imported modules are the parameter \<open>mods\<close>: each has to be importable and to define the
  names asked of it.
\<close>

theorem import_package_binds_reexports:
  assumes "list_all (provides mods) init_py"
  shows "\<exists>ns. import_package mods = Inr ns
    \<and> (\<forall>st \<in> set init_py. \<forall>n \<in> set (names st). ns n = Some (Attribute (module st) n))
    \<and> list_all (\<lambda>(m, n). ns n = Some (Attribute m n))
        [(''pytensor.compile.function.types'', ''AliasedMemoryError''),
         (''pytensor.compile.function.types'', ''Function''),
         (''pytensor.compile.function.types'', ''FunctionMaker''),
         (''pytensor.compile.function.types'', ''Supervisor''),
         (''pytensor.compile.function.types'', ''UnusedInputError''),
         (''pytensor.compile.function.types'', ''infer_reuse_pattern''),
         (''pytensor.compile.function.types'', ''insert_deepcopy''),
         (''pytensor.compile.io'', ''In''),
         (''pytensor.compile.io'', ''Out''),
         (''pytensor.compile.mode'', ''Mode''),
         (''pytensor.compile.mode'', ''get_mode''),
         (''pytensor.compile.mode'', ''optdb''),
         (''pytensor.compile.mode'', ''predefined_modes''),
         (''pytensor.compile.mode'', ''predefined_linkers''),
         (''pytensor.compile.mode'', ''predefined_optimizers''),
         (''pytensor.compile.mode'', ''register_mode''),
         (''pytensor.compile.mode'', ''register_linker''),
         (''pytensor.compile.mode'', ''register_optimizer''),
         (''pytensor.compile.monitormode'', ''MonitorMode''),
         (''pytensor.compile.ops'', ''DeepCopyOp''),
         (''pytensor.compile.ops'', ''ViewOp''),
         (''pytensor.compile.profiling'', ''ProfileStats''),
         (''pytensor.compile.sharedvalue'', ''SharedVariable''),
         (''pytensor.compile.sharedvalue'', ''shared'')]"
proof -
  define ns where "ns = map_of (rev (concat (map stmt_bindings init_py)))"
  have run: "import_package mods = Inr ns"
    using exec_module_ok[OF assms, of Map.empty] by (simp add: import_package_def ns_def)
  have all: "ns n = Some (Attribute (module st) n)"
    if "st \<in> set init_py" "n \<in> set (names st)" for st n
    unfolding ns_def
    by (rule map_of_rev_functional[OF name_in_bindings[OF that] init_py_functional])
  have mem: "\<exists>st \<in> set init_py. module st = m \<and> n \<in> set (names st) \<Longrightarrow>
      ns n = Some (Attribute m n)" for m n
    using all by blast
  have "list_all (\<lambda>(m, n). \<exists>st \<in> set init_py. module st = m \<and> n \<in> set (names st))
        [(''pytensor.compile.function.types'', ''AliasedMemoryError''),
         (''pytensor.compile.function.types'', ''Function''),
         (''pytensor.compile.function.types'', ''FunctionMaker''),
         (''pytensor.compile.function.types'', ''Supervisor''),
         (''pytensor.compile.function.types'', ''UnusedInputError''),
         (''pytensor.compile.function.types'', ''infer_reuse_pattern''),
         (''pytensor.compile.function.types'', ''insert_deepcopy''),
         (''pytensor.compile.io'', ''In''),
         (''pytensor.compile.io'', ''Out''),
         (''pytensor.compile.mode'', ''Mode''),
         (''pytensor.compile.mode'', ''get_mode''),
         (''pytensor.compile.mode'', ''optdb''),
         (''pytensor.compile.mode'', ''predefined_modes''),
         (''pytensor.compile.mode'', ''predefined_linkers''),
         (''pytensor.compile.mode'', ''predefined_optimizers''),
         (''pytensor.compile.mode'', ''register_mode''),
         (''pytensor.compile.mode'', ''register_linker''),
         (''pytensor.compile.mode'', ''register_optimizer''),
         (''pytensor.compile.monitormode'', ''MonitorMode''),
         (''pytensor.compile.ops'', ''DeepCopyOp''),
         (''pytensor.compile.ops'', ''ViewOp''),
         (''pytensor.compile.profiling'', ''ProfileStats''),
         (''pytensor.compile.sharedvalue'', ''SharedVariable''),
         (''pytensor.compile.sharedvalue'', ''shared'')]"
    by (simp add: init_py_def)
  then have part: "list_all (\<lambda>(m, n). ns n = Some (Attribute m n))
        [(''pytensor.compile.function.types'', ''AliasedMemoryError''),
         (''pytensor.compile.function.types'', ''Function''),
         (''pytensor.compile.function.types'', ''FunctionMaker''),
         (''pytensor.compile.function.types'', ''Supervisor''),
         (''pytensor.compile.function.types'', ''UnusedInputError''),
         (''pytensor.compile.function.types'', ''infer_reuse_pattern''),
         (''pytensor.compile.function.types'', ''insert_deepcopy''),
         (''pytensor.compile.io'', ''In''),
         (''pytensor.compile.io'', ''Out''),
         (''pytensor.compile.mode'', ''Mode''),
         (''pytensor.compile.mode'', ''get_mode''),
         (''pytensor.compile.mode'', ''optdb''),
         (''pytensor.compile.mode'', ''predefined_modes''),
         (''pytensor.compile.mode'', ''predefined_linkers''),
         (''pytensor.compile.mode'', ''predefined_optimizers''),
         (''pytensor.compile.mode'', ''register_mode''),
         (''pytensor.compile.mode'', ''register_linker''),
         (''pytensor.compile.mode'', ''register_optimizer''),
         (''pytensor.compile.monitormode'', ''MonitorMode''),
         (''pytensor.compile.ops'', ''DeepCopyOp''),
         (''pytensor.compile.ops'', ''ViewOp''),
         (''pytensor.compile.profiling'', ''ProfileStats''),
         (''pytensor.compile.sharedvalue'', ''SharedVariable''),
         (''pytensor.compile.sharedvalue'', ''shared'')]"
    by (rule list.pred_mono_strong) (use mem in auto)
  show ?thesis using run all part by blast
qed

text \<open>The hypothesis holds, and the theorem applies, for \<open>exact_modules\<close>.\<close>

lemma exact_modules_provide: "list_all (provides exact_modules) init_py"
  by (simp add: provides_def exact_modules_def init_py_def)

theorem import_package_binds_reexports_witness:
  "list_all (provides exact_modules) init_py
   \<and> (\<exists>ns. import_package exact_modules = Inr ns
       \<and> ns ''Mode'' = Some (Attribute ''pytensor.compile.mode'' ''Mode'')
       \<and> ns ''shared'' = Some (Attribute ''pytensor.compile.sharedvalue'' ''shared''))"
  using import_package_binds_reexports[OF exact_modules_provide] exact_modules_provide
  by auto

text \<open>
  The hypothesis is needed: when an imported module is missing, or lacks a name asked of
  it, the exception leaves the module body and the import of the package fails.
\<close>

lemma bind_names_fail:
  "\<not> list_all (\<lambda>n. n \<in> set defs) xs \<Longrightarrow> \<exists>e. bind_names m defs xs ns = Inl e"
  by (induction xs arbitrary: ns) auto

lemma exec_from_import_fail:
  "\<not> provides mods st \<Longrightarrow> \<exists>e. exec_from_import mods st ns = Inl e"
  by (auto simp: provides_def exec_from_import_def bind_names_fail split: option.splits)

lemma exec_module_fail:
  "\<not> list_all (provides mods) sts \<Longrightarrow> \<exists>e. exec_module mods sts ns = Inl e"
proof (induction sts arbitrary: ns)
  case Nil
  then show ?case by simp
next
  case (Cons st sts)
  show ?case
  proof (cases "exec_from_import mods st ns")
    case (Inl e)
    then show ?thesis by simp
  next
    case (Inr ns')
    then have "provides mods st"
      using exec_from_import_fail[of mods st ns] by auto
    with Cons.prems have "\<not> list_all (provides mods) sts" by simp
    from Cons.IH[OF this, of ns'] Inr show ?thesis by simp
  qed
qed

lemma import_package_fails:
  "\<not> list_all (provides mods) init_py \<Longrightarrow> \<exists>e. import_package mods = Inl e"
  unfolding import_package_def by (rule exec_module_fail)

section \<open>The merge stage is idempotent\<close>

lemma same_computation_sym: "same_computation a b = same_computation b a"
  by (auto simp: same_computation_def)

lemma find_None_iff: "find P xs = None \<longleftrightarrow> (\<forall>x \<in> set xs. \<not> P x)"
  by (induction xs) auto

lemma no_duplicates_snoc:
  "no_duplicates (ks @ [n]) \<longleftrightarrow> no_duplicates ks \<and> find (same_computation n) ks = None"
  by (induction ks) (auto simp: find_None_iff same_computation_sym)

lemma merge_nodes_no_duplicates:
  "no_duplicates kept \<Longrightarrow> no_duplicates (fst (merge_nodes sub kept ns))"
proof (induction ns arbitrary: sub kept)
  case Nil
  then show ?case by simp
next
  case (Cons n ns)
  then show ?case
    by (auto simp: Let_def no_duplicates_snoc split: option.splits)
qed

lemma no_duplicates_append_find:
  "no_duplicates (ks @ n # ns) \<Longrightarrow> find (same_computation n) ks = None"
  by (induction ks) (auto simp: find_None_iff same_computation_sym)

lemma merge_nodes_fixpoint:
  "no_duplicates (kept @ ns) \<Longrightarrow> merge_nodes id kept ns = (kept @ ns, id)"
proof (induction ns arbitrary: kept)
  case Nil
  then show ?case by simp
next
  case (Cons n ns)
  have none: "find (same_computation n) kept = None"
    using Cons.prems by (rule no_duplicates_append_find)
  have step: "merge_nodes id kept (n # ns) = merge_nodes id (kept @ [n]) ns"
    unfolding merge_nodes.simps Let_def using none by (simp add: list.map_id)
  have "merge_nodes id (kept @ [n]) ns = ((kept @ [n]) @ ns, id)"
    using Cons.prems by (intro Cons.IH) simp
  with step show ?case by (simp only: append_assoc append_Cons append_Nil)
qed

text \<open>
  Claim C8. Running the merge stage on the result of the merge stage changes nothing: the
  graph after two runs is the graph after one. One run reaches the fixpoint, in which no
  two nodes are structurally identical.
\<close>

theorem merge_stage_idempotent:
  "merge_stage (merge_stage g) = merge_stage g \<and> no_duplicates (fg_nodes (merge_stage g))"
proof -
  obtain kept sub where run: "merge_nodes id [] (fg_nodes g) = (kept, sub)"
    by (cases "merge_nodes id [] (fg_nodes g)")
  have nd: "no_duplicates kept"
    using merge_nodes_no_duplicates[of "[]" id "fg_nodes g"] run by simp
  then have "merge_nodes id [] kept = (kept, id)"
    using merge_nodes_fixpoint[of "[]" kept] by simp
  then show ?thesis using run nd by (simp add: merge_stage_def)
qed

text \<open>
  On \<open>example_graph\<close> one run removes the second addition, then the second multiplication,
  whose inputs became those of the first, and keeps both sums; a second run returns the
  same graph.
\<close>

theorem merge_stage_idempotent_witness:
  "merge_stage example_graph =
     \<lparr>fg_nodes =
        [\<lparr>node_op = ''add'', node_attrs = [], node_inputs = [0, 1], node_outputs = [2]\<rparr>,
         \<lparr>node_op = ''mul'', node_attrs = [], node_inputs = [2, 2], node_outputs = [4]\<rparr>,
         \<lparr>node_op = ''sum'', node_attrs = [''axis=0''], node_inputs = [4], node_outputs = [6]\<rparr>,
         \<lparr>node_op = ''sum'', node_attrs = [''axis=1''], node_inputs = [4], node_outputs = [7]\<rparr>],
      fg_inputs = [0, 1], fg_outputs = [6, 7, 4]\<rparr>
   \<and> merge_stage (merge_stage example_graph) = merge_stage example_graph"
  using merge_stage_idempotent[of example_graph]
  by (simp add: merge_stage_def example_graph_def same_computation_def redirect_def Let_def)

section \<open>The merge stage rewrites all consumers\<close>

lemma redirect_cases: "redirect sub vs ss v \<in> set ss \<or> redirect sub vs ss v = sub v"
  by (auto simp: redirect_def split: option.splits dest!: map_of_SomeD set_zip_rightD)

lemma redirect_notin: "v \<notin> set vs \<Longrightarrow> redirect sub vs ss v = sub v"
  by (auto simp: redirect_def split: option.splits dest!: map_of_SomeD set_zip_leftD)

lemma redirect_in:
  assumes "v \<in> set vs" and "length vs \<le> length ss"
  shows "redirect sub vs ss v \<in> set ss"
proof -
  have "map fst (zip vs ss) = vs" using assms(2) by (simp add: map_fst_zip_take)
  then have "v \<in> fst ` set (zip vs ss)" using assms(1) by (metis set_map)
  then obtain s where "map_of (zip vs ss) v = Some s"
    by (metis map_of_eq_None_iff not_Some_eq)
  then show ?thesis
    by (auto simp: redirect_def dest!: map_of_SomeD set_zip_rightD)
qed

lemma find_SomeD: "find P xs = Some x \<Longrightarrow> x \<in> set xs \<and> P x"
  by (induction xs) (auto split: if_splits)

lemma outs_simps [simp]:
  "outs [] = {}" "outs (n # ns) = set (node_outputs n) \<union> outs ns"
  "outs (xs @ ys) = outs xs \<union> outs ys"
  by (auto simp: outs_def)

lemma ins_simps [simp]:
  "ins [] = {}" "ins (n # ns) = set (node_inputs n) \<union> ins ns"
  "ins (xs @ ys) = ins xs \<union> ins ys"
  by (auto simp: ins_def)

lemma producers_first_Cons:
  "producers_first (n # ns) \<longleftrightarrow>
     set (node_outputs n) \<inter> set (node_inputs n) = {}
     \<and> outs ns \<inter> (set (node_inputs n) \<union> set (node_outputs n)) = {}
     \<and> producers_first ns"
  by (auto simp: list_all_iff outs_def)

lemma fixed_arity_iff:
  "fixed_arity ns \<longleftrightarrow> (\<forall>a \<in> set ns. \<forall>b \<in> set ns.
      node_op a = node_op b \<longrightarrow> node_attrs a = node_attrs b \<longrightarrow>
      length (node_outputs a) = length (node_outputs b))"
  by (auto simp: fixed_arity_def list_all_iff)


lemma fixed_arity_mono:
  assumes "fixed_arity ys"
    and "\<And>a. a \<in> set xs \<Longrightarrow> \<exists>b \<in> set ys. node_op b = node_op a \<and> node_attrs b = node_attrs a
            \<and> length (node_outputs b) = length (node_outputs a)"
  shows "fixed_arity xs"
  unfolding fixed_arity_iff
proof (intro ballI impI)
  fix a b
  assume ab: "a \<in> set xs" "b \<in> set xs" and eq: "node_op a = node_op b" "node_attrs a = node_attrs b"
  from assms(2)[OF ab(1)] obtain a' where a': "a' \<in> set ys" "node_op a' = node_op a"
    "node_attrs a' = node_attrs a" "length (node_outputs a') = length (node_outputs a)" by blast
  from assms(2)[OF ab(2)] obtain b' where b': "b' \<in> set ys" "node_op b' = node_op b"
    "node_attrs b' = node_attrs b" "length (node_outputs b') = length (node_outputs b)" by blast
  have "length (node_outputs a') = length (node_outputs b')"
    using assms(1) a'(1) b'(1) a'(2,3) b'(2,3) eq unfolding fixed_arity_iff by metis
  with a'(4) b'(4) show "length (node_outputs a) = length (node_outputs b)" by simp
qed

lemma merge_nodes_inv:
  assumes "merge_inv sub kept D ns"
  shows "\<exists>D'. merge_inv (snd (merge_nodes sub kept ns)) (fst (merge_nodes sub kept ns)) D' []
            \<and> D' \<union> outs (fst (merge_nodes sub kept ns)) = D \<union> outs kept \<union> outs ns"
  using assms
proof (induction ns arbitrary: sub kept D)
  case Nil
  then show ?case by auto
next
  case (Cons n ns)
  let ?n' = "n\<lparr>node_inputs := map sub (node_inputs n)\<rparr>"
  from Cons.prems have inv:
    "outs kept \<inter> D = {}" "outs kept \<inter> outs (n # ns) = {}" "D \<inter> outs (n # ns) = {}"
    "\<And>v. sub v \<noteq> v \<Longrightarrow> v \<in> D" "\<And>v. v \<in> D \<Longrightarrow> sub v \<in> outs kept"
    "ins kept \<inter> (D \<union> outs (n # ns)) = {}"
    "producers_first (n # ns)" "fixed_arity (kept @ n # ns)"
    by (auto simp: merge_inv_def)
  from inv(7)[unfolded producers_first_Cons] have ord:
    "set (node_outputs n) \<inter> set (node_inputs n) = {}"
    "outs ns \<inter> (set (node_inputs n) \<union> set (node_outputs n)) = {}"
    "producers_first ns"
    by blast+
  have sub_range: "sub v \<notin> D \<and> (sub v = v \<or> sub v \<in> outs kept)" for v
  proof (cases "v \<in> D")
    case True
    then have "sub v \<in> outs kept" by (rule inv(5))
    then show ?thesis using inv(1) by auto
  next
    case False
    then have "sub v = v" using inv(4) by blast
    then show ?thesis using False by simp
  qed
  show ?case
  proof (cases "find (same_computation ?n') kept")
    case None
    have "merge_inv sub (kept @ [?n']) D ns"
      unfolding merge_inv_def
    proof (intro conjI)
      show "outs (kept @ [?n']) \<inter> D = {}" using inv(1,3) by auto
      show "outs (kept @ [?n']) \<inter> outs ns = {}" using inv(2) ord(2) by auto
      show "D \<inter> outs ns = {}" using inv(3) by auto
      show "\<forall>v. sub v \<noteq> v \<longrightarrow> v \<in> D" using inv(4) by blast
      show "\<forall>v\<in>D. sub v \<in> outs (kept @ [?n'])" using inv(5) by auto
      show "ins (kept @ [?n']) \<inter> (D \<union> outs ns) = {}"
      proof -
        have "sub v \<notin> D \<union> outs ns" if "v \<in> set (node_inputs n)" for v
          using sub_range[of v] that ord(2) inv(2) by auto
        then show ?thesis using inv(6) by auto
      qed
      show "producers_first ns" by (rule ord(3))
      show "fixed_arity ((kept @ [?n']) @ ns)"
      proof (rule fixed_arity_mono[OF inv(8)])
        fix a assume "a \<in> set ((kept @ [?n']) @ ns)"
        then consider "a \<in> set kept \<union> set ns" | "a = ?n'" by auto
        then show "\<exists>b \<in> set (kept @ n # ns). node_op b = node_op a \<and> node_attrs b = node_attrs a
            \<and> length (node_outputs b) = length (node_outputs a)"
        proof cases
          case 1
          then show ?thesis by (intro bexI[of _ a]) auto
        next
          case 2
          then show ?thesis by (intro bexI[of _ n]) auto
        qed
      qed
    qed
    from Cons.IH[OF this] obtain D' where D':
      "merge_inv (snd (merge_nodes sub (kept @ [?n']) ns)) (fst (merge_nodes sub (kept @ [?n']) ns)) D' []"
      "D' \<union> outs (fst (merge_nodes sub (kept @ [?n']) ns)) = D \<union> outs (kept @ [?n']) \<union> outs ns"
      by blast
    have step: "merge_nodes sub kept (n # ns) = merge_nodes sub (kept @ [?n']) ns"
      using None by (simp add: Let_def)
    have "D' \<union> outs (fst (merge_nodes sub (kept @ [?n']) ns)) = D \<union> outs kept \<union> outs (n # ns)"
      unfolding D'(2) by (simp add: Un_ac)
    with D'(1) show ?thesis unfolding step by blast
  next
    case (Some k)
    then have k: "k \<in> set kept" "same_computation ?n' k" by (auto dest: find_SomeD)
    let ?sub' = "redirect sub (node_outputs n) (node_outputs k)"
    have "n \<in> set (kept @ n # ns)" "k \<in> set (kept @ n # ns)" using k(1) by auto
    moreover have "node_op n = node_op k" "node_attrs n = node_attrs k"
      using k(2) by (auto simp: same_computation_def)
    ultimately have len: "length (node_outputs n) = length (node_outputs k)"
      using inv(8) unfolding fixed_arity_iff by blast
    have kouts: "set (node_outputs k) \<subseteq> outs kept" using k(1) by (auto simp: outs_def)
    have "merge_inv ?sub' kept (D \<union> set (node_outputs n)) ns"
      unfolding merge_inv_def
    proof (intro conjI)
      show "outs kept \<inter> (D \<union> set (node_outputs n)) = {}" using inv(1,2) by auto
      show "outs kept \<inter> outs ns = {}" using inv(2) by auto
      show "(D \<union> set (node_outputs n)) \<inter> outs ns = {}" using inv(3) ord(2) by auto
      show "\<forall>v. ?sub' v \<noteq> v \<longrightarrow> v \<in> D \<union> set (node_outputs n)"
      proof (intro allI impI)
        fix v assume a: "?sub' v \<noteq> v"
        show "v \<in> D \<union> set (node_outputs n)"
        proof (rule ccontr)
          assume "\<not> ?thesis"
          then have nin: "v \<notin> set (node_outputs n)" "v \<notin> D" by auto
          then have "?sub' v = sub v" by (simp add: redirect_notin)
          with a have "sub v \<noteq> v" by simp
          with inv(4) nin(2) show False by blast
        qed
      qed
      show "\<forall>v\<in>D \<union> set (node_outputs n). ?sub' v \<in> outs kept"
      proof
        fix v assume v: "v \<in> D \<union> set (node_outputs n)"
        show "?sub' v \<in> outs kept"
        proof (cases "v \<in> set (node_outputs n)")
          case True
          then show ?thesis using redirect_in[of v "node_outputs n" "node_outputs k" sub] len kouts
            by auto
        next
          case False
          then show ?thesis using v inv(5) by (simp add: redirect_notin)
        qed
      qed
      show "ins kept \<inter> (D \<union> set (node_outputs n) \<union> outs ns) = {}" using inv(6) by auto
      show "producers_first ns" by (rule ord(3))
      show "fixed_arity (kept @ ns)"
      proof (rule fixed_arity_mono[OF inv(8)])
        fix a assume "a \<in> set (kept @ ns)"
        then show "\<exists>b \<in> set (kept @ n # ns). node_op b = node_op a \<and> node_attrs b = node_attrs a
            \<and> length (node_outputs b) = length (node_outputs a)"
          by (intro bexI[of _ a]) auto
      qed
    qed
    from Cons.IH[OF this] obtain D' where D':
      "merge_inv (snd (merge_nodes ?sub' kept ns)) (fst (merge_nodes ?sub' kept ns)) D' []"
      "D' \<union> outs (fst (merge_nodes ?sub' kept ns)) = D \<union> set (node_outputs n) \<union> outs kept \<union> outs ns"
      by blast
    have step: "merge_nodes sub kept (n # ns) = merge_nodes ?sub' kept ns"
      using Some by (simp add: Let_def)
    have "D' \<union> outs (fst (merge_nodes ?sub' kept ns)) = D \<union> outs kept \<union> outs (n # ns)"
      unfolding D'(2) by (simp add: Un_ac)
    with D'(1) show ?thesis unfolding step by blast
  qed
qed


text \<open>
  On a graph that satisfies the invariants of the graph model, the merge stage rewrites
  every consumer: no kept node and no declared output refers to an output of a removed
  node, and the stage introduces no variable.
\<close>

lemma merge_stage_redirects_consumers:
  assumes "producers_first (fg_nodes g)" and "fixed_arity (fg_nodes g)"
  shows "ins (fg_nodes (merge_stage g)) \<inter> (outs (fg_nodes g) - outs (fg_nodes (merge_stage g))) = {}"
    and "set (fg_outputs (merge_stage g)) \<inter> (outs (fg_nodes g) - outs (fg_nodes (merge_stage g))) = {}"
    and "outs (fg_nodes (merge_stage g)) \<subseteq> outs (fg_nodes g)"
proof -
  obtain kept sub where run: "merge_nodes id [] (fg_nodes g) = (kept, sub)"
    by (cases "merge_nodes id [] (fg_nodes g)")
  have "merge_inv id [] {} (fg_nodes g)"
    using assms by (simp add: merge_inv_def)
  from merge_nodes_inv[OF this] run obtain D where
    inv: "merge_inv sub kept D []" and D: "D \<union> outs kept = outs (fg_nodes g)"
    by auto
  from inv have disj: "outs kept \<inter> D = {}" and moved: "\<And>v. sub v \<noteq> v \<Longrightarrow> v \<in> D"
    and tgt: "\<And>v. v \<in> D \<Longrightarrow> sub v \<in> outs kept" and kin: "ins kept \<inter> D = {}"
    by (auto simp: merge_inv_def)
  have removed: "outs (fg_nodes g) - outs kept = D" using D disj by auto
  have g': "fg_nodes (merge_stage g) = kept" "fg_outputs (merge_stage g) = map sub (fg_outputs g)"
    using run by (simp_all add: merge_stage_def)
  show "ins (fg_nodes (merge_stage g)) \<inter> (outs (fg_nodes g) - outs (fg_nodes (merge_stage g))) = {}"
    unfolding g' removed by (rule kin)
  have "sub v \<notin> D" for v
  proof (cases "v \<in> D")
    case True
    from tgt[OF this] disj show ?thesis by auto
  next
    case False
    then have "sub v = v" using moved[of v] by blast
    with False show ?thesis by simp
  qed
  then show "set (fg_outputs (merge_stage g)) \<inter> (outs (fg_nodes g) - outs (fg_nodes (merge_stage g))) = {}"
    unfolding g' removed by auto
  show "outs (fg_nodes (merge_stage g)) \<subseteq> outs (fg_nodes g)"
    unfolding g' using D by auto
qed

lemma example_graph_well_formed:
  "producers_first (fg_nodes example_graph) \<and> fixed_arity (fg_nodes example_graph)"
  by (simp add: example_graph_def fixed_arity_def)

end
